theory Spec2Isabelle
  imports Complex_Main
begin

section \<open>Python values as the streaming parser hands them over\<close>

text \<open>
  A Python \<open>str\<close> is a sequence of Unicode code points: slicing (\<open>[:16]\<close>),
  \<open>startswith\<close>, the regular expression \<open>\s+\<close> and \<open>strip\<close> all work on code
  points, and only \<open>encode("utf-8")\<close> turns them into bytes. A string is therefore a
  list of code points; \<open>ascii\<close> embeds an ASCII literal.
\<close>

type_synonym pystr = "nat list"

definition ascii :: "string \<Rightarrow> pystr" where
  "ascii s = map of_char s"

text \<open>
  The exceptions the modelled code can raise. \<open>ValueError\<close> is the one
  \<open>split_json\<close> raises itself (the spec's ConfigurationError); the others come from
  the operations it applies to a record.
\<close>

datatype error =
    ValueError
  | AttributeError
  | TypeError
  | UnicodeEncodeError
  | FileNotFoundError

text \<open>
  \<open>ijson.items\<close> yields \<open>None\<close>, \<open>bool\<close>, \<open>int\<close>, \<open>Decimal\<close> (every number
  that is not an integer literal), \<open>str\<close>, \<open>list\<close> and \<open>dict\<close>. A \<open>Decimal\<close> is
  kept as sign, coefficient and exponent; a \<open>dict\<close> as its items in insertion order,
  with distinct keys.
\<close>

datatype json =
    JNull
  | JBool bool
  | JInt int
  | JDec bool nat int
  | JStr pystr
  | JArr "json list"
  | JObj "(pystr \<times> json) list"

text \<open>
  Two texts come from the Python runtime and not from this program: \<open>str\<close> of a
  non-empty list or dict (the \<open>repr\<close> of its elements) and \<open>str\<close> of a \<open>Decimal\<close>.
  They are parameters of the model; everything proved holds for any choice of them.
\<close>

record pylib =
  repr_container :: "json \<Rightarrow> pystr"
  str_decimal :: "bool \<Rightarrow> nat \<Rightarrow> int \<Rightarrow> pystr"

fun str_nat :: "nat \<Rightarrow> pystr" where
  "str_nat n = (if n < 10 then [48 + n] else str_nat (n div 10) @ [48 + n mod 10])"

declare str_nat.simps [simp del]

definition str_int :: "int \<Rightarrow> pystr" where
  "str_int i = (if i < 0 then 45 # str_nat (nat (- i)) else str_nat (nat i))"

text \<open>The format \<open>{n:,}\<close>: decimal digits in groups of three, separated by commas.\<close>

fun fmt_commas :: "nat \<Rightarrow> pystr" where
  "fmt_commas n =
     (if n < 1000 then str_nat n
      else fmt_commas (n div 1000) @
           [44, 48 + (n mod 1000) div 100, 48 + (n mod 100) div 10, 48 + n mod 10])"

declare fmt_commas.simps [simp del]

text \<open>\<open>bool(v)\<close>: what \<open>if v\<close>, \<open>not v\<close> and \<open>v or w\<close> test.\<close>

fun truthy :: "json \<Rightarrow> bool" where
  "truthy JNull = False"
| "truthy (JBool b) = b"
| "truthy (JInt i) = (i \<noteq> 0)"
| "truthy (JDec s c e) = (c \<noteq> 0)"
| "truthy (JStr s) = (s \<noteq> [])"
| "truthy (JArr xs) = (xs \<noteq> [])"
| "truthy (JObj d) = (d \<noteq> [])"

text \<open>\<open>str(v)\<close>, which is also what an f-string field \<open>{v}\<close> inserts.\<close>

fun py_str :: "pylib \<Rightarrow> json \<Rightarrow> pystr" where
  "py_str L JNull = ascii ''None''"
| "py_str L (JBool b) = (if b then ascii ''True'' else ascii ''False'')"
| "py_str L (JInt i) = str_int i"
| "py_str L (JDec s c e) = str_decimal L s c e"
| "py_str L (JStr s) = s"
| "py_str L (JArr xs) = (if xs = [] then ascii ''[]'' else repr_container L (JArr xs))"
| "py_str L (JObj d) = (if d = [] then ascii ''{}'' else repr_container L (JObj d))"

text \<open>\<open>d.get(k)\<close> and \<open>d.get(k, default)\<close> on a dict.\<close>

definition dict_get :: "(pystr \<times> json) list \<Rightarrow> string \<Rightarrow> json \<Rightarrow> json" where
  "dict_get d k dflt = (case map_of d (ascii k) of None \<Rightarrow> dflt | Some v \<Rightarrow> v)"

text \<open>\<open>a or b\<close>.\<close>

definition py_or :: "json \<Rightarrow> json \<Rightarrow> json" where
  "py_or a b = (if truthy a then a else b)"

text \<open>
  \<open>for e in v\<close>: a list gives its elements, a string its characters, a dict its keys;
  a number or a boolean is not iterable.
\<close>

fun py_iter :: "json \<Rightarrow> error + json list" where
  "py_iter (JArr xs) = Inr xs"
| "py_iter (JStr s) = Inr (map (\<lambda>c. JStr [c]) s)"
| "py_iter (JObj d) = Inr (map (\<lambda>kv. JStr (fst kv)) d)"
| "py_iter v = Inl TypeError"

text \<open>\<open>sep.join(parts)\<close>.\<close>

fun join :: "pystr \<Rightarrow> pystr list \<Rightarrow> pystr" where
  "join sep [] = []"
| "join sep [x] = x"
| "join sep (x # y # ys) = x @ sep @ join sep (y # ys)"

text \<open>
  \<open>Py_UNICODE_ISSPACE\<close>, the test behind both \<open>\s\<close> in a \<open>str\<close> pattern and
  \<open>str.strip()\<close> without argument.
\<close>

definition is_space :: "nat \<Rightarrow> bool" where
  "is_space c \<longleftrightarrow>
     (9 \<le> c \<and> c \<le> 13) \<or> (28 \<le> c \<and> c \<le> 32) \<or> c = 133 \<or> c = 160 \<or> c = 5760 \<or>
     (8192 \<le> c \<and> c \<le> 8202) \<or> c = 8232 \<or> c = 8233 \<or> c = 8239 \<or> c = 8287 \<or>
     c = 12288"

definition lstrip :: "pystr \<Rightarrow> pystr" where
  "lstrip s = dropWhile is_space s"

definition rstrip :: "pystr \<Rightarrow> pystr" where
  "rstrip s = rev (dropWhile is_space (rev s))"

definition strip :: "pystr \<Rightarrow> pystr" where
  "strip s = rstrip (lstrip s)"

text \<open>
  \<open>len(s.encode("utf-8"))\<close>: one to four bytes per code point; a surrogate code point
  cannot be encoded.
\<close>

definition utf8_bytes :: "nat \<Rightarrow> nat" where
  "utf8_bytes c = (if c < 128 then 1 else if c < 2048 then 2 else if c < 65536 then 3 else 4)"

definition is_surrogate :: "nat \<Rightarrow> bool" where
  "is_surrogate c \<longleftrightarrow> 55296 \<le> c \<and> c \<le> 57343"

definition utf8_size :: "pystr \<Rightarrow> int" where
  "utf8_size s = int (sum_list (map utf8_bytes s))"

definition encode_len :: "pystr \<Rightarrow> error + int" where
  "encode_len s = (if list_ex is_surrogate s then Inl UnicodeEncodeError else Inr (utf8_size s))"

section \<open>The record normalizer\<close>

text \<open>
  \<open>_extract_text\<close>. In the list case only the items that are strings or dicts
  contribute; the pieces are concatenated without separator.
\<close>

fun text_part :: "json \<Rightarrow> json option" where
  "text_part (JStr s) = Some (JStr s)"
| "text_part (JObj d) = Some (dict_get d ''text'' (JStr []))"
| "text_part v = None"

fun extract_text :: "pylib \<Rightarrow> json \<Rightarrow> pystr" where
  "extract_text L JNull = []"
| "extract_text L (JStr s) = s"
| "extract_text L (JObj d) = py_str L (dict_get d ''text'' (JStr []))"
| "extract_text L (JArr xs) = concat (map (py_str L) (List.map_filter text_part xs))"
| "extract_text L v = py_str L v"

text \<open>
  \<open>_WS_RE.sub(" ", s)\<close>: every maximal run of whitespace becomes one space.
\<close>

function ws_sub :: "pystr \<Rightarrow> pystr" where
  "ws_sub [] = []"
| "ws_sub (c # cs) =
     (if is_space c then 32 # ws_sub (dropWhile is_space cs) else c # ws_sub cs)"
  by pat_completeness auto
termination
  by (relation "measure length") (auto simp: less_Suc_eq_le length_dropWhile_le)

definition normalize_text :: "pystr \<Rightarrow> pystr" where
  "normalize_text s = (if s = [] then [] else strip (ws_sub s))"

text \<open>\<open>str(date).replace("T", " ")[:16]\<close>.\<close>

definition date_cut :: "pystr \<Rightarrow> pystr" where
  "date_cut s = take 16 (map (\<lambda>c. if c = 84 then 32 else c) s)"

text \<open>
  \<open>obj_to_md\<close>. \<open>obj.get\<close> exists only on a dict; iterating \<open>text_entities\<close> fails
  on a value that is not iterable.
\<close>

definition obj_to_md :: "pylib \<Rightarrow> json \<Rightarrow> error + pystr" where
  "obj_to_md L obj =
     (case obj of
        JObj d \<Rightarrow>
          (let date = dict_get d ''date'' (JStr []);
               date = (if truthy date \<and> 84 \<in> set (py_str L date)
                       then JStr (date_cut (py_str L date)) else date);
               author = py_or (py_or (dict_get d ''from'' JNull) (dict_get d ''actor'' JNull))
                          (JStr []);
               text = py_or (dict_get d ''text'' JNull) (JStr [])
           in case (if \<not> truthy text \<and> truthy (dict_get d ''text_entities'' JNull)
                    then map_sum id (\<lambda>es. join (ascii '' '') (map (extract_text L) es))
                           (py_iter (dict_get d ''text_entities'' JNull))
                    else Inr (extract_text L text)) of
                Inl e \<Rightarrow> Inl e
              | Inr text \<Rightarrow>
                  (let text = normalize_text text;
                       lines = [ascii ''### '' @ py_str L date @ ascii '' | '' @ py_str L author];
                       lines = (if text \<noteq> []
                                then lines @ [if take 1 text = ascii ''#'' then 92 # text else text]
                                else lines)
                   in Inr (join [10] lines)))
      | _ \<Rightarrow> Inl AttributeError)"

text \<open>
  The body of the loop of \<open>json_to_txt\<close> for \<open>format_ == "chat"\<close>: the line written
  for one record, newline included.
\<close>

definition chat_line :: "pylib \<Rightarrow> json \<Rightarrow> error + pystr" where
  "chat_line L obj =
     (case obj of
        JObj d \<Rightarrow>
          (let date = dict_get d ''date'' (JStr []);
               date = (if 84 \<in> set (py_str L date)
                       then JStr (date_cut (py_str L date)) else date);
               author = py_or (py_or (dict_get d ''from'' JNull) (dict_get d ''actor'' JNull))
                          (JStr []);
               text = py_or (dict_get d ''text'' JNull) (JStr [])
           in case (if \<not> truthy text \<and> truthy (dict_get d ''text_entities'' JNull)
                    then map_sum id (\<lambda>es. join (ascii '' '') (map (extract_text L) es))
                           (py_iter (dict_get d ''text_entities'' JNull))
                    else Inr (extract_text L text)) of
                Inl e \<Rightarrow> Inl e
              | Inr text \<Rightarrow>
                  (let text = normalize_text text;
                       line = py_str L date @ ascii '' | '' @ py_str L author @ ascii '': '' @ text
                   in Inr (rstrip line @ [10])))
      | _ \<Rightarrow> Inl AttributeError)"

section \<open>Compact JSON serialisation\<close>

text \<open>
  \<open>json.dumps(v, ensure_ascii=False, separators=(",", ":"))\<close>. Only the quote, the
  backslash and the control characters are escaped; a \<open>Decimal\<close> is not serialisable.
\<close>

definition hex_digit :: "nat \<Rightarrow> nat" where
  "hex_digit n = (if n < 10 then 48 + n else 87 + n)"

definition esc_char :: "nat \<Rightarrow> pystr" where
  "esc_char c =
     (if c = 34 then [92, 34]
      else if c = 92 then [92, 92]
      else if c = 10 then [92, 110]
      else if c = 13 then [92, 114]
      else if c = 9 then [92, 116]
      else if c = 8 then [92, 98]
      else if c = 12 then [92, 102]
      else if c < 32 then [92, 117, 48, 48, hex_digit (c div 16), hex_digit (c mod 16)]
      else [c])"

definition json_str :: "pystr \<Rightarrow> pystr" where
  "json_str s = 34 # concat (map esc_char s) @ [34]"

fun json_dumps :: "json \<Rightarrow> error + pystr"
  and dumps_list :: "json list \<Rightarrow> error + pystr list"
  and dumps_items :: "(pystr \<times> json) list \<Rightarrow> error + pystr list" where
  "json_dumps JNull = Inr (ascii ''null'')"
| "json_dumps (JBool b) = Inr (if b then ascii ''true'' else ascii ''false'')"
| "json_dumps (JInt i) = Inr (str_int i)"
| "json_dumps (JDec s c e) = Inl TypeError"
| "json_dumps (JStr s) = Inr (json_str s)"
| "json_dumps (JArr xs) =
     map_sum id (\<lambda>ps. ascii ''['' @ join (ascii '','') ps @ ascii '']'') (dumps_list xs)"
| "json_dumps (JObj d) =
     map_sum id (\<lambda>ps. ascii ''{'' @ join (ascii '','') ps @ ascii ''}'') (dumps_items d)"
| "dumps_list [] = Inr []"
| "dumps_list (x # xs) =
     (case json_dumps x of
        Inl e \<Rightarrow> Inl e
      | Inr p \<Rightarrow> map_sum id ((#) p) (dumps_list xs))"
| "dumps_items [] = Inr []"
| "dumps_items ((k, v) # kvs) =
     (case json_dumps v of
        Inl e \<Rightarrow> Inl e
      | Inr p \<Rightarrow> map_sum id ((#) (json_str k @ ascii '':'' @ p)) (dumps_items kvs))"

section \<open>The partition engine\<close>

text \<open>
  The file system as far as \<open>split_json\<close> touches it: the directories that exist and
  the text files with their contents, keyed by absolute path. Failures of the storage
  itself (permissions, a full disk) are outside the model, and so is the opening and
  parsing of the input: the input is the sequence of records the parser yields.
  The progress messages are not modelled; they read the state and change nothing.
\<close>

record world =
  dirs :: "pystr set"
  files :: "pystr \<rightharpoonup> pystr"

text \<open>
  The arguments of \<open>split_json\<close>. A finite \<open>float\<close> is a rational number, and its
  product with \<open>1024 * 1024\<close> is exact.
\<close>

record args =
  output_dir :: pystr
  output_prefix :: pystr
  max_file_size_mb :: "rat option"
  max_objects_per_file :: "int option"
  output_format :: pystr

text \<open>
  One call of \<open>write_part\<close> that wrote a file: the path, the buffers it was given and
  the text it wrote.
\<close>

record part =
  part_path :: pystr
  part_blocks :: "pystr list"
  part_objects :: "json list"
  part_text :: pystr

text \<open>
  The local variables of \<open>split_json\<close> that \<open>write_part\<close> shares with the loop,
  together with the file system. \<open>parts\<close> is a history variable: it lists the writes
  in the order they happened, and nothing in the program reads it.
\<close>

record state =
  created_files :: "pystr list"
  current_objects :: "json list"
  current_md_blocks :: "pystr list"
  current_size :: int
  part_index :: nat
  total_read :: nat
  env :: world
  parts :: "part list"

definition is_md :: "args \<Rightarrow> bool" where
  "is_md a \<longleftrightarrow> output_format a = ascii ''md''"

definition ext :: "args \<Rightarrow> pystr" where
  "ext a = (if is_md a then ascii ''.md'' else ascii ''.json'')"

text \<open>\<open>int(x)\<close> on a float truncates towards zero.\<close>

definition py_trunc :: "rat \<Rightarrow> int" where
  "py_trunc x = (if 0 \<le> x then \<lfloor>x\<rfloor> else \<lceil>x\<rceil>)"

definition max_size_bytes :: "args \<Rightarrow> int option" where
  "max_size_bytes a =
     (case max_file_size_mb a of
        None \<Rightarrow> None
      | Some m \<Rightarrow> if m \<noteq> 0 then Some (py_trunc (m * 1024 * 1024)) else None)"

text \<open>\<open>os.path.join\<close> of two components (POSIX).\<close>

definition path_join :: "pystr \<Rightarrow> pystr \<Rightarrow> pystr" where
  "path_join a b =
     (if take 1 b = ascii ''/'' then b
      else if a = [] \<or> last a = 47 then a @ b
      else a @ ascii ''/'' @ b)"

definition md_sep :: pystr where
  "md_sep = ascii ''\<newline>---\<newline>''"

definition sep_len :: int where
  "sep_len = utf8_size md_sep"

definition n_current :: "args \<Rightarrow> state \<Rightarrow> nat" where
  "n_current a s =
     (if is_md a then length (current_md_blocks s) else length (current_objects s))"

text \<open>
  \<open>write_part\<close>. \<open>abspath\<close> resolves a path against the working directory; every
  file is kept under its resolved path. \<open>json.dump\<close> writes what \<open>json.dumps\<close>
  returns. It cannot fail in a run, because every buffered object has been serialised
  once before it was buffered; the model keeps the branch and leaves the state as it was.
\<close>

definition out_name :: "args \<Rightarrow> state \<Rightarrow> pystr" where
  "out_name a s =
     path_join (output_dir a) (output_prefix a @ ascii ''_'' @ str_nat (part_index s) @ ext a)"

definition part_content :: "args \<Rightarrow> state \<Rightarrow> error + pystr" where
  "part_content a s =
     (if is_md a then Inr (join md_sep (current_md_blocks s))
      else json_dumps (JArr (current_objects s)))"

definition write_part :: "(pystr \<Rightarrow> pystr) \<Rightarrow> args \<Rightarrow> state \<Rightarrow> error + state" where
  "write_part abspath a s =
     (let n = n_current a s in
      if n = 0 then Inr s
      else
        (case part_content a s of
           Inl e \<Rightarrow> Inl e
         | Inr content \<Rightarrow>
             Inr (s\<lparr>env := (env s)\<lparr>files := (files (env s))(abspath (out_name a s) \<mapsto> content)\<rparr>,
                    created_files := created_files s @ [abspath (out_name a s)],
                    parts := parts s @
                      [\<lparr>part_path = abspath (out_name a s),
                        part_blocks = current_md_blocks s,
                        part_objects = current_objects s,
                        part_text = content\<rparr>],
                    part_index := part_index s + 1,
                    current_objects := [],
                    current_md_blocks := [],
                    current_size := 0\<rparr>)))"

text \<open>
  Rendering and measuring one record (the first statement of the loop body): the
  Markdown block, or nothing in JSON mode where the object itself is buffered, with the
  size charged for it.
\<close>

definition measure_obj :: "pylib \<Rightarrow> args \<Rightarrow> json \<Rightarrow> state \<Rightarrow> error + pystr \<times> int" where
  "measure_obj L a obj s =
     (if is_md a then
        (case obj_to_md L obj of
           Inl e \<Rightarrow> Inl e
         | Inr obj_content \<Rightarrow>
             map_sum id
               (\<lambda>n. (obj_content, n + (if current_md_blocks s \<noteq> [] then sep_len else 0)))
               (encode_len obj_content))
      else
        (case json_dumps obj of
           Inl e \<Rightarrow> Inl e
         | Inr obj_json \<Rightarrow> map_sum id (\<lambda>n. ([], n)) (encode_len obj_json)))"

text \<open>\<open>if c: write_part()\<close>.\<close>

definition flush_if :: "bool \<Rightarrow> (pystr \<Rightarrow> pystr) \<Rightarrow> args \<Rightarrow> state \<Rightarrow> error + state" where
  "flush_if c abspath a s = (if c then write_part abspath a s else Inr s)"

text \<open>
  The three tests of the loop body. A limit that is \<open>None\<close> or \<open>0\<close> is false in
  \<open>if limit and ...\<close>, so neither triggers a flush.
  \<^item> \<open>max_size_bytes and current_size >= max_size_bytes\<close>
  \<^item> \<open>max_size_bytes and n_current and (current_size + obj_size > max_size_bytes)\<close>
  \<^item> \<open>max_objects_per_file and n_current >= max_objects_per_file\<close>
\<close>

definition size_reached :: "args \<Rightarrow> state \<Rightarrow> bool" where
  "size_reached a s =
     (case max_size_bytes a of None \<Rightarrow> False | Some b \<Rightarrow> b \<noteq> 0 \<and> b \<le> current_size s)"

definition would_exceed :: "args \<Rightarrow> state \<Rightarrow> int \<Rightarrow> bool" where
  "would_exceed a s obj_size =
     (case max_size_bytes a of
        None \<Rightarrow> False
      | Some b \<Rightarrow> b \<noteq> 0 \<and> n_current a s \<noteq> 0 \<and> b < current_size s + obj_size)"

definition count_reached :: "args \<Rightarrow> state \<Rightarrow> bool" where
  "count_reached a s =
     (case max_objects_per_file a of
        None \<Rightarrow> False
      | Some c \<Rightarrow> c \<noteq> 0 \<and> c \<le> int (n_current a s))"

text \<open>The end of the loop body: the unit joins the buffer and is counted.\<close>

definition append_unit :: "args \<Rightarrow> json \<Rightarrow> pystr \<Rightarrow> int \<Rightarrow> state \<Rightarrow> state" where
  "append_unit a obj obj_content obj_size s =
     (if is_md a
      then s\<lparr>current_md_blocks := current_md_blocks s @ [obj_content]\<rparr>
      else s\<lparr>current_objects := current_objects s @ [obj]\<rparr>)
     \<lparr>current_size := current_size s + obj_size, total_read := total_read s + 1\<rparr>"

text \<open>One iteration of the loop over the parsed records.\<close>

definition step :: "pylib \<Rightarrow> (pystr \<Rightarrow> pystr) \<Rightarrow> args \<Rightarrow> json \<Rightarrow> state \<Rightarrow> error + state" where
  "step L abspath a obj s =
     (case measure_obj L a obj s of
        Inl e \<Rightarrow> Inl e
      | Inr (obj_content, obj_size) \<Rightarrow>
          (case flush_if (size_reached a s) abspath a s of
             Inl e \<Rightarrow> Inl e
           | Inr s1 \<Rightarrow>
               (case flush_if (would_exceed a s1 obj_size) abspath a s1 of
                  Inl e \<Rightarrow> Inl e
                | Inr s2 \<Rightarrow>
                    (case flush_if (count_reached a s2) abspath a s2 of
                       Inl e \<Rightarrow> Inl e
                     | Inr s3 \<Rightarrow> Inr (append_unit a obj obj_content obj_size s3)))))"

text \<open>
  The loop. An exception leaves the function; the files written so far stay.
\<close>

fun run_loop ::
  "pylib \<Rightarrow> (pystr \<Rightarrow> pystr) \<Rightarrow> args \<Rightarrow> json list \<Rightarrow> state \<Rightarrow> error \<times> world + state" where
  "run_loop L abspath a [] s = Inr s"
| "run_loop L abspath a (obj # objs) s =
     (case step L abspath a obj s of
        Inl e \<Rightarrow> Inl (e, env s)
      | Inr s' \<Rightarrow> run_loop L abspath a objs s')"

definition init_state :: "world \<Rightarrow> state" where
  "init_state w =
     \<lparr>created_files = [], current_objects = [], current_md_blocks = [], current_size = 0,
      part_index = 1, total_read = 0, env = w, parts = []\<rparr>"

text \<open>The loop and the flush of the remainder that follows it.\<close>

definition partition_run ::
  "pylib \<Rightarrow> (pystr \<Rightarrow> pystr) \<Rightarrow> args \<Rightarrow> json list \<Rightarrow> world \<Rightarrow> error \<times> world + state" where
  "partition_run L abspath a objs w =
     (case run_loop L abspath a objs (init_state w) of
        Inl ew \<Rightarrow> Inl ew
      | Inr s \<Rightarrow>
          (case flush_if (current_objects s \<noteq> [] \<or> current_md_blocks s \<noteq> []) abspath a s of
             Inl e \<Rightarrow> Inl (e, env s)
           | Inr s' \<Rightarrow> Inr s'))"

text \<open>
  Reading a text file: universal newlines turn \<open>\r\n\<close> and \<open>\r\<close> into \<open>\n\<close>, and
  iterating the file gives its lines, each with its newline.
\<close>

fun universal_newlines :: "pystr \<Rightarrow> pystr" where
  "universal_newlines [] = []"
| "universal_newlines [c] = [if c = 13 then 10 else c]"
| "universal_newlines (c # c' # cs) =
     (if c = 13 \<and> c' = 10 then 10 # universal_newlines cs
      else (if c = 13 then 10 else c) # universal_newlines (c' # cs))"

fun file_lines :: "pystr \<Rightarrow> pystr list" where
  "file_lines [] = []"
| "file_lines (c # cs) =
     (if c = 10 then [10] # file_lines cs
      else (case file_lines cs of [] \<Rightarrow> [[c]] | l # ls \<Rightarrow> (c # l) # ls))"

definition report_prefix :: pystr where
  "report_prefix =
     ascii ''### '' @ [1054, 1090, 1095, 1105, 1090] @ ascii '' | '' @
     [1042, 1089, 1077, 1075, 1086] @ ascii '' '' @
     [1089, 1086, 1086, 1073, 1097, 1077, 1085, 1080, 1081] @ ascii '': ''"

definition report_line :: "nat \<Rightarrow> pystr" where
  "report_line n = report_prefix @ fmt_commas n"

text \<open>
  The rewrite of the first part: the report line and the separator, then every line of
  the part that is not blank, stripped on the right; the temporary file replaces the
  part.
\<close>

definition rewrite_first :: "nat \<Rightarrow> pystr \<Rightarrow> pystr" where
  "rewrite_first n content =
     report_line n @ md_sep @
     concat (map (\<lambda>line. rstrip line @ [10])
               (filter (\<lambda>line. strip line \<noteq> []) (file_lines (universal_newlines content))))"

definition finalize :: "args \<Rightarrow> state \<Rightarrow> (error + pystr list) \<times> world" where
  "finalize a s =
     (if is_md a \<and> created_files s \<noteq> [] then
        (let first_path = hd (created_files s);
             tmp_path = first_path @ ascii ''.tmp''
         in case files (env s) first_path of
              None \<Rightarrow> (Inl FileNotFoundError, env s)
            | Some content \<Rightarrow>
                (Inr (created_files s),
                 (env s)\<lparr>files := (files (env s))
                    (tmp_path := None, first_path \<mapsto> rewrite_first (total_read s) content)\<rparr>))
      else (Inr (created_files s), env s))"

text \<open>
  \<open>split_json\<close>: the directory is made first, then the limits are checked, then the
  records are read.
\<close>

definition split_json ::
  "pylib \<Rightarrow> (pystr \<Rightarrow> pystr) \<Rightarrow> args \<Rightarrow> json list \<Rightarrow> world \<Rightarrow> (error + pystr list) \<times> world" where
  "split_json L abspath a objs w =
     (let w1 = w\<lparr>dirs := insert (output_dir a) (dirs w)\<rparr> in
      if max_file_size_mb a = None \<and> max_objects_per_file a = None then (Inl ValueError, w1)
      else
        (case partition_run L abspath a objs w1 of
           Inl (e, w2) \<Rightarrow> (Inl e, w2)
         | Inr s \<Rightarrow> finalize a s))"

section \<open>Definitions used to state the properties\<close>

text \<open>
  The three fields both renderers compute from a record, named after the local
  variables of \<open>obj_to_md\<close>, and the layout of a block.
\<close>

definition date_of :: "pylib \<Rightarrow> (pystr \<times> json) list \<Rightarrow> pystr" where
  "date_of L d =
     (let date = dict_get d ''date'' (JStr [])
      in if truthy date \<and> 84 \<in> set (py_str L date) then date_cut (py_str L date)
         else py_str L date)"

definition author_of :: "pylib \<Rightarrow> (pystr \<times> json) list \<Rightarrow> pystr" where
  "author_of L d =
     py_str L (py_or (py_or (dict_get d ''from'' JNull) (dict_get d ''actor'' JNull)) (JStr []))"

definition text_of :: "pylib \<Rightarrow> (pystr \<times> json) list \<Rightarrow> error + pystr" where
  "text_of L d =
     (let text = py_or (dict_get d ''text'' JNull) (JStr [])
      in if \<not> truthy text \<and> truthy (dict_get d ''text_entities'' JNull)
         then map_sum id (\<lambda>es. join (ascii '' '') (map (extract_text L) es))
                (py_iter (dict_get d ''text_entities'' JNull))
         else Inr (extract_text L text))"

definition md_block :: "pystr \<Rightarrow> pystr \<Rightarrow> pystr \<Rightarrow> pystr" where
  "md_block date author text =
     ascii ''### '' @ date @ ascii '' | '' @ author @
     (if text = [] then [] else 10 # (if take 1 text = ascii ''#'' then 92 # text else text))"

text \<open>
  The words of a text: its maximal runs of characters that are not whitespace, as
  \<open>str.split()\<close> returns them. Collapsing every run of whitespace to one space and
  stripping the ends is joining the words with single spaces.
\<close>

function ws_words :: "pystr \<Rightarrow> pystr list" where
  "ws_words s =
     (case dropWhile is_space s of
        [] \<Rightarrow> []
      | c # cs \<Rightarrow>
          takeWhile (\<lambda>x. \<not> is_space x) (c # cs) #
          ws_words (dropWhile (\<lambda>x. \<not> is_space x) cs))"
  by pat_completeness auto
termination
  apply (relation "measure length")
   apply simp
  subgoal for s c cs
    using length_dropWhile_le [of is_space s] length_dropWhile_le [of "\<lambda>x. \<not> is_space x" cs]
    by simp
  done

declare ws_words.simps [simp del]

text \<open>
  The extraction rule as the specification words it: a string, a mapping with a
  \<open>text\<close> field, or recursively a sequence of such, joined by single spaces; any other
  value as the code treats it.
\<close>

fun spec_entity_text :: "pylib \<Rightarrow> json \<Rightarrow> pystr" where
  "spec_entity_text L (JStr s) = s"
| "spec_entity_text L (JObj d) = py_str L (dict_get d ''text'' (JStr []))"
| "spec_entity_text L (JArr xs) = join (ascii '' '') (map (spec_entity_text L) xs)"
| "spec_entity_text L v = extract_text L v"

definition spec_text_of :: "pylib \<Rightarrow> (pystr \<times> json) list \<Rightarrow> error + pystr" where
  "spec_text_of L d =
     (if \<not> truthy (dict_get d ''text'' JNull) \<and> truthy (dict_get d ''text_entities'' JNull)
      then map_sum id (\<lambda>es. join (ascii '' '') (map (spec_entity_text L) es))
             (py_iter (dict_get d ''text_entities'' JNull))
      else Inr (spec_entity_text L (dict_get d ''text'' JNull)))"

text \<open>
  The extraction rule the code follows, worded the same way: inside a sequence only
  strings and mappings count, one level deep, and their texts are put together without
  separator.
\<close>

fun item_text :: "pylib \<Rightarrow> json \<Rightarrow> pystr" where
  "item_text L (JStr s) = s"
| "item_text L (JObj d) = py_str L (dict_get d ''text'' (JStr []))"
| "item_text L v = []"

fun entity_text :: "pylib \<Rightarrow> json \<Rightarrow> pystr" where
  "entity_text L JNull = []"
| "entity_text L (JArr xs) = concat (map (item_text L) xs)"
| "entity_text L (JObj d) = py_str L (dict_get d ''text'' (JStr []))"
| "entity_text L v = py_str L v"

text \<open>A runtime and a message to evaluate the definitions on.\<close>

definition lib0 :: pylib where
  "lib0 = \<lparr>repr_container = (\<lambda>v. ascii ''[...]''), str_decimal = (\<lambda>s c e. str_nat c)\<rparr>"

definition sample_msg :: json where
  "sample_msg =
     JObj [(ascii ''date'', JStr (ascii ''2023-12-27T10:28:45'')),
           (ascii ''from'', JStr (ascii ''Ann'')),
           (ascii ''text'', JStr (ascii ''# hi\<newline>\<newline>  there ''))]"

text \<open>
  The units a run has taken in so far, in order: those of the parts written, then those
  still in the buffer.
\<close>

definition all_blocks :: "state \<Rightarrow> pystr list" where
  "all_blocks s = concat (map part_blocks (parts s)) @ current_md_blocks s"

definition all_objects :: "state \<Rightarrow> json list" where
  "all_objects s = concat (map part_objects (parts s)) @ current_objects s"

text \<open>
  The rendering whose size the engine measures, and the records it can take in: those
  that render to a text that can be encoded.
\<close>

definition render :: "pylib \<Rightarrow> args \<Rightarrow> json \<Rightarrow> error + pystr" where
  "render L a obj = (if is_md a then obj_to_md L obj else json_dumps obj)"

definition renders_ok :: "pylib \<Rightarrow> args \<Rightarrow> json \<Rightarrow> bool" where
  "renders_ok L a obj =
     (case render L a obj of Inl e \<Rightarrow> False | Inr t \<Rightarrow> \<not> list_ex is_surrogate t)"

text \<open>
  What holds of the state throughout a run: the catalog lists the parts written, each
  file of the catalog exists, only the buffer of the active mode is used, every part
  holds at least one unit and its text is the serialisation of its units, and every
  buffered object is serialisable.
\<close>

definition wf_state :: "args \<Rightarrow> state \<Rightarrow> bool" where
  "wf_state a s \<longleftrightarrow>
     created_files s = map part_path (parts s) \<and>
     (\<forall>p\<in>set (created_files s). files (env s) p \<noteq> None) \<and>
     (is_md a \<longrightarrow>
        current_objects s = [] \<and>
        (\<forall>p\<in>set (parts s).
           part_objects p = [] \<and> part_blocks p \<noteq> [] \<and>
           part_text p = join md_sep (part_blocks p))) \<and>
     (\<not> is_md a \<longrightarrow>
        current_md_blocks s = [] \<and>
        (\<forall>p\<in>set (parts s).
           part_blocks p = [] \<and> part_objects p \<noteq> [] \<and>
           json_dumps (JArr (part_objects p)) = Inr (part_text p)) \<and>
        (\<forall>obj\<in>set (current_objects s). \<exists>t. json_dumps obj = Inr t))"

text \<open>
  The name of the \<open>i\<close>-th part, and the invariant that ties the parts to the files:
  every part written is on disk under its path with the text written, and its path is
  that of an index already used.
\<close>

definition part_file :: "args \<Rightarrow> nat \<Rightarrow> pystr" where
  "part_file a i =
     path_join (output_dir a) (output_prefix a @ ascii ''_'' @ str_nat i @ ext a)"

definition on_disk :: "(pystr \<Rightarrow> pystr) \<Rightarrow> args \<Rightarrow> state \<Rightarrow> bool" where
  "on_disk A a s \<longleftrightarrow>
     (\<forall>p\<in>set (parts s).
        files (env s) (part_path p) = Some (part_text p) \<and>
        (\<exists>i<part_index s. part_path p = A (part_file a i)))"




text \<open>Inputs to run the engine on.\<close>

definition world0 :: world where
  "world0 = \<lparr>dirs = {}, files = Map.empty\<rparr>"


definition md_by_two :: args where
  "md_by_two =
     \<lparr>output_dir = ascii ''dist'', output_prefix = ascii ''part'', max_file_size_mb = None,
      max_objects_per_file = Some 2, output_format = ascii ''md''\<rparr>"

definition msg :: "string \<Rightarrow> json" where
  "msg t = JObj [(ascii ''text'', JStr (ascii t))]"

definition five_msgs :: "json list" where
  "five_msgs = [msg ''a'', msg ''b'', msg ''c'', msg ''d'', msg ''e'']"


definition json_14_bytes :: args where
  "json_14_bytes =
     \<lparr>output_dir = ascii ''dist'', output_prefix = ascii ''part'',
      max_file_size_mb = Some (14 / 1048576), max_objects_per_file = None,
      output_format = ascii ''json''\<rparr>"

definition obj_a1 :: json where
  "obj_a1 = JObj [(ascii ''a'', JInt 1)]"

text \<open>
  Two states of runs that differ at most in the file system they started from: the
  variables agree, and so do the files of the catalog.
\<close>

definition same_output :: "state \<Rightarrow> state \<Rightarrow> bool" where
  "same_output s t \<longleftrightarrow>
     created_files s = created_files t \<and> current_objects s = current_objects t \<and>
     current_md_blocks s = current_md_blocks t \<and> current_size s = current_size t \<and>
     part_index s = part_index t \<and> total_read s = total_read t \<and> parts s = parts t \<and>
     (\<forall>p\<in>set (created_files s). files (env s) p = files (env t) p)"

text \<open>
  The invariant of the size limit \<open>b\<close> in Markdown mode: a part written is within the
  limit unless it is a single block larger than the limit; the accumulator is at least
  the size of the buffer joined, and within the limit once the buffer holds two blocks.
\<close>

definition md_size_ok :: "int \<Rightarrow> state \<Rightarrow> bool" where
  "md_size_ok b s \<longleftrightarrow>
     (\<forall>p\<in>set (parts s).
        utf8_size (part_text p) \<le> b \<or> (\<exists>u. part_blocks p = [u] \<and> b < utf8_size u)) \<and>
     utf8_size (join md_sep (current_md_blocks s)) \<le> current_size s \<and>
     (2 \<le> length (current_md_blocks s) \<longrightarrow> current_size s \<le> b)"

section \<open>The normalizer: proofs\<close>

lemma obj_to_md_JObj:
  "obj_to_md L (JObj d) =
     map_sum id (\<lambda>raw. md_block (date_of L d) (author_of L d) (normalize_text raw)) (text_of L d)"
  by (cases "text_of L d")
     (auto simp: obj_to_md_def date_of_def author_of_def text_of_def md_block_def Let_def)

lemma obj_to_md_not_dict: "(\<forall>d. obj \<noteq> JObj d) \<Longrightarrow> obj_to_md L obj = Inl AttributeError"
  by (cases obj) (auto simp: obj_to_md_def)








lemma ws_words_Nil [simp]: "ws_words [] = []"
  by (simp add: ws_words.simps)






lemma map_filter_text_part: "concat (map (py_str L) (List.map_filter text_part xs)) = concat (map (item_text L) xs)"
proof (induction xs)
  case Nil
  show ?case by (simp add: List.map_filter_simps)
next
  case (Cons x xs)
  then show ?case by (cases x) (simp_all add: List.map_filter_simps)
qed

lemma extract_text_entity: "extract_text L v = entity_text L v"
  by (cases v) (simp_all add: map_filter_text_part)

lemma text_of_entity:
  "text_of L d =
     (if \<not> truthy (dict_get d ''text'' JNull) \<and> truthy (dict_get d ''text_entities'' JNull)
      then map_sum id (\<lambda>es. join (ascii '' '') (map (entity_text L) es))
             (py_iter (dict_get d ''text_entities'' JNull))
      else Inr (if truthy (dict_get d ''text'' JNull)
                then entity_text L (dict_get d ''text'' JNull) else []))"
proof -
  have "extract_text L = entity_text L" by (rule ext) (rule extract_text_entity)
  then show ?thesis by (simp add: text_of_def py_or_def Let_def extract_text_entity)
qed

text \<open>
  Claim C6, as the code has it. For every record the Markdown normalizer takes its text
  as follows. If the \<open>text\<close> field is empty or absent and \<open>text_entities\<close> is not
  empty, it joins with single spaces the text extracted from every entity. Otherwise it
  extracts the text from the \<open>text\<close> field, an empty or absent field giving the empty
  text. Extraction gives a string itself and, for a mapping, its \<open>text\<close> field; for a
  sequence it puts together, with no separator, its strings and the \<open>text\<close> fields of its
  mappings, and skips every other item, a nested sequence included.
\<close>

theorem md_text_extraction:
  "obj_to_md L (JObj d) =
     map_sum id (\<lambda>raw. md_block (date_of L d) (author_of L d) (normalize_text raw))
       (if \<not> truthy (dict_get d ''text'' JNull) \<and> truthy (dict_get d ''text_entities'' JNull)
        then map_sum id (\<lambda>es. join (ascii '' '') (map (entity_text L) es))
               (py_iter (dict_get d ''text_entities'' JNull))
        else Inr (if truthy (dict_get d ''text'' JNull)
                  then entity_text L (dict_get d ''text'' JNull) else []))"
  using text_of_entity [of L d] by (simp add: obj_to_md_JObj)

lemmas eval_text =
  ascii_def dict_get_def py_or_def Let_def md_block_def date_of_def author_of_def text_of_def
  normalize_text_def strip_def lstrip_def rstrip_def is_space_def obj_to_md_def date_cut_def

text \<open>
  An entity list with a nested sequence: the entities are joined by spaces, the pieces
  inside the nested sequence are not.
\<close>

theorem md_text_extraction_witness:
  "obj_to_md lib0
     (JObj [(ascii ''text_entities'', JArr [JStr (ascii ''a''), JArr [JObj [(ascii ''text'', JStr (ascii ''b''))], JStr (ascii ''c'')]])])
   = Inr (ascii ''###  | \<newline>a bc'')"
  using md_text_extraction [of lib0 "[(ascii ''text_entities'', JArr [JStr (ascii ''a''), JArr [JObj [(ascii ''text'', JStr (ascii ''b''))], JStr (ascii ''c'')]])]"]
  by (simp add: eval_text)

text \<open>
  Claim C6 as stated fails on a \<open>text\<close> field that is a sequence: the code joins
  \<open>["a", ["b"], "c"]\<close> to \<open>ac\<close>, where the stated rule (single spaces, nested
  sequences followed) gives \<open>a b c\<close>.
\<close>

theorem md_text_extraction_counterexample:
  "obj_to_md lib0 (JObj [(ascii ''text'', JArr [JStr (ascii ''a''), JArr [JStr (ascii ''b'')], JStr (ascii ''c'')])])
     = Inr (ascii ''###  | \<newline>ac'') \<and>
   map_sum id (normalize_text)
     (spec_text_of lib0 [(ascii ''text'', JArr [JStr (ascii ''a''), JArr [JStr (ascii ''b'')], JStr (ascii ''c'')])])
     = Inr (ascii ''a b c'')"
  by (simp add: eval_text spec_text_of_def List.map_filter_simps)















lemma falsy_no_T:
  assumes "\<And>s e. 84 \<notin> set (str_decimal L s 0 e)" and "\<not> truthy v"
  shows "84 \<notin> set (py_str L v)"
  using assms by (cases v) (auto simp: ascii_def str_int_def str_nat.simps)

lemma chat_line_JObj:
  assumes "\<And>s e. 84 \<notin> set (str_decimal L s 0 e)"
  shows "chat_line L (JObj d) =
     map_sum id
       (\<lambda>raw. rstrip (date_of L d @ ascii '' | '' @ author_of L d @ ascii '': '' @ normalize_text raw) @ [10])
       (text_of L d)"
proof -
  have "(84 \<in> set (py_str L (dict_get d ''date'' (JStr [])))) =
        (truthy (dict_get d ''date'' (JStr [])) \<and> 84 \<in> set (py_str L (dict_get d ''date'' (JStr []))))"
    using falsy_no_T [OF assms] by blast
  then show ?thesis
    by (cases "text_of L d")
       (auto simp: chat_line_def date_of_def author_of_def text_of_def Let_def)
qed

text \<open>
  Claim C9. The flat-line renderer of \<open>json_to_txt\<close> and \<open>obj_to_md\<close> compute the same
  date, author and normalized text from a record and fail on the same records; the line
  is \<open>date | author: text\<close> with the whitespace at its end stripped, then a newline.
  The two date tests differ in the source (\<open>if date and "T" in str(date)\<close> against
  \<open>if "T" in str(date)\<close>); they agree because the text of a false value holds no
  \<open>T\<close>, which for a zero \<open>Decimal\<close> is a fact about the runtime and is assumed.
\<close>

theorem chat_line_same_fields:
  assumes "\<And>s e. 84 \<notin> set (str_decimal L s 0 e)"
  shows "obj_to_md L obj =
           (case obj of
              JObj d \<Rightarrow>
                map_sum id
                  (\<lambda>raw. md_block (date_of L d) (author_of L d) (normalize_text raw)) (text_of L d)
            | _ \<Rightarrow> Inl AttributeError) \<and>
         chat_line L obj =
           (case obj of
              JObj d \<Rightarrow>
                map_sum id
                  (\<lambda>raw. rstrip (date_of L d @ ascii '' | '' @ author_of L d @ ascii '': '' @
                                 normalize_text raw) @ [10]) (text_of L d)
            | _ \<Rightarrow> Inl AttributeError)"
proof (cases obj)
  case (JObj d)
  then show ?thesis using chat_line_JObj [OF assms] by (simp add: obj_to_md_JObj)
qed (simp_all add: obj_to_md_def chat_line_def)

lemma lib0_decimal: "84 \<notin> set (str_decimal lib0 s 0 e)"
  by (simp add: lib0_def str_nat.simps)

text \<open>
  The same message through both renderers.
\<close>

theorem chat_line_same_fields_witness:
  "obj_to_md lib0 sample_msg =
     Inr (ascii ''### 2023-12-27 10:28 | Ann\<newline>'' @ [92] @ ascii ''# hi there'') \<and>
   chat_line lib0 sample_msg = Inr (ascii ''2023-12-27 10:28 | Ann: # hi there\<newline>'')"
  using chat_line_same_fields [of lib0 sample_msg, OF lib0_decimal]
  by (simp add: sample_msg_def eval_text)

section \<open>The partition engine: proofs\<close>

lemma map_sum_id_Inr: "map_sum id f x = Inr y \<longleftrightarrow> (\<exists>z. x = Inr z \<and> y = f z)"
  by (cases x) auto


lemma write_part_cases:
  assumes "write_part A a s = Inr s'"
  obtains (idle) "n_current a s = 0" "s' = s"
  | (wrote) content where "n_current a s \<noteq> 0" "part_content a s = Inr content"
      "s' = s\<lparr>env := (env s)\<lparr>files := (files (env s))(A (out_name a s) \<mapsto> content)\<rparr>,
              created_files := created_files s @ [A (out_name a s)],
              parts := parts s @
                [\<lparr>part_path = A (out_name a s), part_blocks = current_md_blocks s,
                  part_objects = current_objects s, part_text = content\<rparr>],
              part_index := part_index s + 1,
              current_objects := [], current_md_blocks := [], current_size := 0\<rparr>"
  using assms unfolding write_part_def Let_def
  by (cases "n_current a s = 0"; cases "part_content a s") auto

lemma flush_if_cases:
  assumes "flush_if c A a s = Inr s'"
  obtains (kept) "s' = s" "\<not> c \<or> n_current a s = 0"
  | (wrote) content where "c" "n_current a s \<noteq> 0" "part_content a s = Inr content"
      "s' = s\<lparr>env := (env s)\<lparr>files := (files (env s))(A (out_name a s) \<mapsto> content)\<rparr>,
              created_files := created_files s @ [A (out_name a s)],
              parts := parts s @
                [\<lparr>part_path = A (out_name a s), part_blocks = current_md_blocks s,
                  part_objects = current_objects s, part_text = content\<rparr>],
              part_index := part_index s + 1,
              current_objects := [], current_md_blocks := [], current_size := 0\<rparr>"
proof (cases c)
  case True
  with assms have "write_part A a s = Inr s'" by (simp add: flush_if_def)
  then show ?thesis using True by (cases rule: write_part_cases) (auto intro: kept wrote)
next
  case False
  with assms show ?thesis by (auto simp: flush_if_def intro: kept)
qed

lemma step_cases:
  assumes "step L A a obj s = Inr s'"
  obtains c n s1 s2 s3 where
    "measure_obj L a obj s = Inr (c, n)"
    "flush_if (size_reached a s) A a s = Inr s1"
    "flush_if (would_exceed a s1 n) A a s1 = Inr s2"
    "flush_if (count_reached a s2) A a s2 = Inr s3"
    "s' = append_unit a obj c n s3"
  using assms unfolding step_def
  by (auto split: sum.splits prod.splits)

text \<open>What a flush keeps.\<close>

lemma flush_if_all_blocks: "flush_if c A a s = Inr s' \<Longrightarrow> all_blocks s' = all_blocks s"
  by (erule flush_if_cases) (auto simp: all_blocks_def)

lemma flush_if_all_objects: "flush_if c A a s = Inr s' \<Longrightarrow> all_objects s' = all_objects s"
  by (erule flush_if_cases) (auto simp: all_objects_def)

lemma flush_if_total_read: "flush_if c A a s = Inr s' \<Longrightarrow> total_read s' = total_read s"
  by (erule flush_if_cases) auto

lemma flush_if_dirs: "flush_if c A a s = Inr s' \<Longrightarrow> dirs (env s') = dirs (env s)"
  by (erule flush_if_cases) auto

lemma measure_obj_md:
  "is_md a \<Longrightarrow> measure_obj L a obj s = Inr (c, n) \<Longrightarrow>
     obj_to_md L obj = Inr c \<and> encode_len c = Inr (n - (if current_md_blocks s \<noteq> [] then sep_len else 0))"
  by (auto simp: measure_obj_def map_sum_id_Inr split: sum.splits if_splits)

lemma measure_obj_json:
  "\<not> is_md a \<Longrightarrow> measure_obj L a obj s = Inr (c, n) \<Longrightarrow>
     c = [] \<and> (\<exists>t. json_dumps obj = Inr t \<and> encode_len t = Inr n)"
  by (auto simp: measure_obj_def map_sum_id_Inr split: sum.splits if_splits)

lemma append_unit_fields [simp]:
  "env (append_unit a obj c n s) = env s"
  "parts (append_unit a obj c n s) = parts s"
  "created_files (append_unit a obj c n s) = created_files s"
  "part_index (append_unit a obj c n s) = part_index s"
  "current_size (append_unit a obj c n s) = current_size s + n"
  "total_read (append_unit a obj c n s) = total_read s + 1"
  by (simp_all add: append_unit_def)

lemma append_unit_all_blocks:
  "all_blocks (append_unit a obj c n s) = (if is_md a then all_blocks s @ [c] else all_blocks s)"
  by (simp add: append_unit_def all_blocks_def)

lemma append_unit_all_objects:
  "all_objects (append_unit a obj c n s) = (if is_md a then all_objects s else all_objects s @ [obj])"
  by (simp add: append_unit_def all_objects_def)

lemma step_all_blocks:
  assumes "step L A a obj s = Inr s'" and "is_md a"
  shows "map Inr (all_blocks s') = map Inr (all_blocks s) @ [obj_to_md L obj]"
  using assms(1)
proof (cases rule: step_cases)
  case (1 c n s1 s2 s3)
  then have "all_blocks s3 = all_blocks s"
    by (simp add: flush_if_all_blocks)
  moreover have "obj_to_md L obj = Inr c" using 1(1) assms(2) by (simp add: measure_obj_md)
  ultimately show ?thesis using 1(5) assms(2) by (simp add: append_unit_all_blocks)
qed

lemma step_all_blocks_json:
  assumes "step L A a obj s = Inr s'" and "\<not> is_md a"
  shows "all_blocks s' = all_blocks s"
  using assms(1)
proof (cases rule: step_cases)
  case (1 c n s1 s2 s3)
  then have "all_blocks s3 = all_blocks s"
    by (simp add: flush_if_all_blocks)
  then show ?thesis using 1(5) assms(2) by (simp add: append_unit_all_blocks)
qed

lemma step_all_objects:
  assumes "step L A a obj s = Inr s'"
  shows "all_objects s' = (if is_md a then all_objects s else all_objects s @ [obj])"
  using assms(1)
proof (cases rule: step_cases)
  case (1 c n s1 s2 s3)
  then have "all_objects s3 = all_objects s"
    by (simp add: flush_if_all_objects)
  then show ?thesis using 1(5) by (simp add: append_unit_all_objects)
qed

lemma step_total_read:
  assumes "step L A a obj s = Inr s'"
  shows "total_read s' = total_read s + 1"
  using assms(1)
proof (cases rule: step_cases)
  case (1 c n s1 s2 s3)
  then have "total_read s3 = total_read s"
    by (simp add: flush_if_total_read)
  then show ?thesis using 1(5) by (simp add: append_unit_def)
qed

lemma run_loop_all_blocks:
  "is_md a \<Longrightarrow> run_loop L A a objs s = Inr s' \<Longrightarrow>
     map Inr (all_blocks s') = map Inr (all_blocks s) @ map (obj_to_md L) objs"
proof (induction objs arbitrary: s)
  case Nil
  then show ?case by simp
next
  case (Cons obj objs)
  then obtain s1 where s1: "step L A a obj s = Inr s1" "run_loop L A a objs s1 = Inr s'"
    by (auto split: sum.splits)
  from Cons.IH [OF Cons.prems(1) s1(2)] step_all_blocks [OF s1(1) Cons.prems(1)]
  show ?case by simp
qed

lemma run_loop_all_blocks_json:
  "\<not> is_md a \<Longrightarrow> run_loop L A a objs s = Inr s' \<Longrightarrow> all_blocks s' = all_blocks s"
proof (induction objs arbitrary: s)
  case Nil
  then show ?case by simp
next
  case (Cons obj objs)
  then obtain s1 where s1: "step L A a obj s = Inr s1" "run_loop L A a objs s1 = Inr s'"
    by (auto split: sum.splits)
  from Cons.IH [OF Cons.prems(1) s1(2)] step_all_blocks_json [OF s1(1) Cons.prems(1)]
  show ?case by simp
qed

lemma run_loop_all_objects:
  "run_loop L A a objs s = Inr s' \<Longrightarrow>
     all_objects s' = (if is_md a then all_objects s else all_objects s @ objs)"
proof (induction objs arbitrary: s)
  case Nil
  then show ?case by simp
next
  case (Cons obj objs)
  then obtain s1 where s1: "step L A a obj s = Inr s1" "run_loop L A a objs s1 = Inr s'"
    by (auto split: sum.splits)
  from Cons.IH [OF s1(2)] step_all_objects [OF s1(1)]
  show ?case by simp
qed

lemma run_loop_total_read:
  "run_loop L A a objs s = Inr s' \<Longrightarrow> total_read s' = total_read s + length objs"
proof (induction objs arbitrary: s)
  case Nil
  then show ?case by simp
next
  case (Cons obj objs)
  then obtain s1 where s1: "step L A a obj s = Inr s1" "run_loop L A a objs s1 = Inr s'"
    by (auto split: sum.splits)
  from Cons.IH [OF s1(2)] step_total_read [OF s1(1)]
  show ?case by simp
qed

lemma wf_init: "wf_state a (init_state w)"
  by (simp add: wf_state_def init_state_def)

lemma part_content_json: "\<not> is_md a \<Longrightarrow> part_content a s = json_dumps (JArr (current_objects s))"
  by (simp add: part_content_def)

lemma part_content_md: "is_md a \<Longrightarrow> part_content a s = Inr (join md_sep (current_md_blocks s))"
  by (simp add: part_content_def)

lemma flush_if_wf:
  assumes "flush_if c A a s = Inr s'" and "wf_state a s"
  shows "wf_state a s'"
  using assms(1)
proof (cases rule: flush_if_cases)
  case kept
  with assms(2) show ?thesis by simp
next
  case (wrote content)
  show ?thesis
  proof (cases "is_md a")
    case True
    with wrote assms(2) show ?thesis
      by (auto simp: wf_state_def part_content_md n_current_def)
  next
    case False
    with wrote assms(2) show ?thesis
      by (auto simp: wf_state_def part_content_json n_current_def)
  qed
qed

lemma append_unit_wf:
  assumes "wf_state a s" and "measure_obj L a obj s0 = Inr (c, n)"
  shows "wf_state a (append_unit a obj c n s)"
proof (cases "is_md a")
  case True
  with assms(1) show ?thesis by (auto simp: wf_state_def append_unit_def)
next
  case False
  with assms(2) have "\<exists>t. json_dumps obj = Inr t" by (auto dest: measure_obj_json)
  with False assms(1) show ?thesis by (auto simp: wf_state_def append_unit_def)
qed

lemma step_wf:
  assumes "step L A a obj s = Inr s'" and "wf_state a s"
  shows "wf_state a s'"
  using assms(1)
proof (cases rule: step_cases)
  case (1 c n s1 s2 s3)
  from 1(2) assms(2) have "wf_state a s1" by (rule flush_if_wf)
  with 1(3) have "wf_state a s2" by (rule flush_if_wf)
  with 1(4) have "wf_state a s3" by (rule flush_if_wf)
  then show ?thesis unfolding 1(5) using 1(1) by (rule append_unit_wf)
qed

lemma run_loop_induct:
  assumes "run_loop L A a objs s = Inr s'" and "P s"
    and "\<And>obj s s1. P s \<Longrightarrow> step L A a obj s = Inr s1 \<Longrightarrow> P s1"
  shows "P s'"
  using assms(1,2)
proof (induction objs arbitrary: s)
  case Nil
  then show ?case by simp
next
  case (Cons obj objs)
  then obtain s1 where s1: "step L A a obj s = Inr s1" "run_loop L A a objs s1 = Inr s'"
    by (auto split: sum.splits)
  from Cons.prems(2) s1(1) have "P s1" by (rule assms(3))
  with s1(2) show ?case by (rule Cons.IH)
qed

lemma run_loop_wf: "run_loop L A a objs s = Inr s' \<Longrightarrow> wf_state a s \<Longrightarrow> wf_state a s'"
  by (erule run_loop_induct) (auto intro: step_wf)

text \<open>A buffer of serialisable objects is serialisable.\<close>

lemma dumps_list_ok:
  "\<forall>obj\<in>set xs. \<exists>t. json_dumps obj = Inr t \<Longrightarrow> \<exists>ts. dumps_list xs = Inr ts"
proof (induction xs)
  case Nil
  show ?case by simp
next
  case (Cons x xs)
  then obtain t ts where "json_dumps x = Inr t" "dumps_list xs = Inr ts" by auto
  then show ?case by simp
qed

lemma write_part_ok:
  assumes "wf_state a s"
  shows "\<exists>s'. write_part A a s = Inr s'"
proof (cases "is_md a")
  case True
  then show ?thesis by (simp add: write_part_def Let_def part_content_md)
next
  case False
  with assms have "\<forall>obj\<in>set (current_objects s). \<exists>t. json_dumps obj = Inr t"
    by (simp add: wf_state_def)
  then obtain ts where "dumps_list (current_objects s) = Inr ts"
    using dumps_list_ok by blast
  with False show ?thesis by (simp add: write_part_def Let_def part_content_json)
qed

lemma flush_if_ok: "wf_state a s \<Longrightarrow> \<exists>s'. flush_if c A a s = Inr s'"
  using write_part_ok [of a s A] by (simp add: flush_if_def)

lemma measure_obj_ok:
  "renders_ok L a obj \<Longrightarrow> \<exists>c n. measure_obj L a obj s = Inr (c, n)"
  by (cases "is_md a")
     (auto simp: renders_ok_def render_def measure_obj_def encode_len_def split: sum.splits)

lemma measure_obj_renders: "measure_obj L a obj s = Inr (c, n) \<Longrightarrow> renders_ok L a obj"
  by (cases "is_md a")
     (auto simp: renders_ok_def render_def measure_obj_def encode_len_def map_sum_id_Inr
           split: sum.splits if_splits)

lemma step_ok:
  assumes "renders_ok L a obj" and "wf_state a s"
  shows "\<exists>s'. step L A a obj s = Inr s'"
proof -
  from assms(1) obtain c n where m: "measure_obj L a obj s = Inr (c, n)"
    using measure_obj_ok by blast
  from assms(2) obtain s1 where s1: "flush_if (size_reached a s) A a s = Inr s1"
    using flush_if_ok by blast
  with assms(2) have "wf_state a s1" by (auto intro: flush_if_wf)
  then obtain s2 where s2: "flush_if (would_exceed a s1 n) A a s1 = Inr s2"
    using flush_if_ok by blast
  with \<open>wf_state a s1\<close> have "wf_state a s2" by (auto intro: flush_if_wf)
  then obtain s3 where s3: "flush_if (count_reached a s2) A a s2 = Inr s3"
    using flush_if_ok by blast
  from m s1 s2 s3 show ?thesis by (simp add: step_def)
qed

lemma step_renders: "step L A a obj s = Inr s' \<Longrightarrow> renders_ok L a obj"
  by (erule step_cases) (rule measure_obj_renders)

lemma run_loop_ok:
  "\<forall>obj\<in>set objs. renders_ok L a obj \<Longrightarrow> wf_state a s \<Longrightarrow> \<exists>s'. run_loop L A a objs s = Inr s'"
proof (induction objs arbitrary: s)
  case Nil
  show ?case by simp
next
  case (Cons obj objs)
  then obtain s1 where s1: "step L A a obj s = Inr s1" using step_ok [of L a obj s A] by auto
  with Cons.prems have "wf_state a s1" by (auto intro: step_wf)
  with Cons s1 show ?case by simp
qed

lemma run_loop_renders:
  "run_loop L A a objs s = Inr s' \<Longrightarrow> \<forall>obj\<in>set objs. renders_ok L a obj"
proof (induction objs arbitrary: s)
  case Nil
  show ?case by simp
next
  case (Cons obj objs)
  then obtain s1 where s1: "step L A a obj s = Inr s1" "run_loop L A a objs s1 = Inr s'"
    by (auto split: sum.splits)
  with Cons.IH show ?case by (auto dest: step_renders)
qed

text \<open>
  A run that fails has made the steps for the records before the failing one, and leaves
  the file system as it was then: what holds of every state the loop reaches holds of the
  parts a failing run has written.
\<close>

lemma run_loop_failure:
  "run_loop L A a objs s = Inl (e, w) \<Longrightarrow>
     \<exists>k s'. k < length objs \<and> run_loop L A a (take k objs) s = Inr s' \<and>
            step L A a (objs ! k) s' = Inl e \<and> w = env s'"
proof (induction objs arbitrary: s)
  case Nil
  then show ?case by simp
next
  case (Cons obj objs)
  show ?case
  proof (cases "step L A a obj s")
    case (Inl e')
    with Cons.prems have "e' = e" "w = env s" by simp_all
    with Inl have "0 < length (obj # objs) \<and> run_loop L A a (take 0 (obj # objs)) s = Inr s \<and>
        step L A a ((obj # objs) ! 0) s = Inl e \<and> w = env s" by simp
    then show ?thesis by blast
  next
    case (Inr s1)
    with Cons.prems have "run_loop L A a objs s1 = Inl (e, w)" by simp
    from Cons.IH [OF this] obtain k s' where
      "k < length objs" "run_loop L A a (take k objs) s1 = Inr s'"
      "step L A a (objs ! k) s' = Inl e" "w = env s'" by blast
    with Inr have "Suc k < length (obj # objs) \<and>
        run_loop L A a (take (Suc k) (obj # objs)) s = Inr s' \<and>
        step L A a ((obj # objs) ! Suc k) s' = Inl e \<and> w = env s'" by simp
    then show ?thesis by blast
  qed
qed

lemma str_nat_nonempty: "str_nat n \<noteq> []"
  by (subst str_nat.simps) simp

lemma str_nat_inj: "str_nat m = str_nat n \<Longrightarrow> m = n"
proof (induction m arbitrary: n rule: str_nat.induct)
  case (1 m)
  show ?case
  proof (cases "m < 10")
    case True
    then have m: "str_nat m = [48 + m]" by (subst str_nat.simps) simp
    show ?thesis
    proof (cases "n < 10")
      case True
      then have "str_nat n = [48 + n]" by (subst str_nat.simps) simp
      with m "1.prems" show ?thesis by simp
    next
      case False
      then have "str_nat n = str_nat (n div 10) @ [48 + n mod 10]" by (subst str_nat.simps) simp
      with m "1.prems" str_nat_nonempty [of "n div 10"] show ?thesis
        by (cases "str_nat (n div 10)") auto
    qed
  next
    case False
    then have m: "str_nat m = str_nat (m div 10) @ [48 + m mod 10]" by (subst str_nat.simps) simp
    show ?thesis
    proof (cases "n < 10")
      case True
      then have "str_nat n = [48 + n]" by (subst str_nat.simps) simp
      with m "1.prems" str_nat_nonempty [of "m div 10"] show ?thesis
        by (cases "str_nat (m div 10)") auto
    next
      case n: False
      then have "str_nat n = str_nat (n div 10) @ [48 + n mod 10]" by (subst str_nat.simps) simp
      with m "1.prems" have "str_nat (m div 10) = str_nat (n div 10)" "m mod 10 = n mod 10"
        by auto
      with "1.IH" [OF False, of "n div 10"] have "m div 10 = n div 10" "m mod 10 = n mod 10"
        by auto
      then show ?thesis by (metis div_mult_mod_eq)
    qed
  qed
qed

lemma path_join_inj:
  assumes "path_join d (p @ x) = path_join d (p @ y)" and "p \<noteq> []"
  shows "x = y"
proof -
  from assms(2) have "take 1 (p @ x) = take 1 (p @ y)" by (cases p) auto
  with assms(1) show ?thesis by (auto simp: path_join_def split: if_splits)
qed

lemma out_name_part_file: "out_name a s = part_file a (part_index s)"
  by (simp add: out_name_def part_file_def)

lemma part_file_inj:
  assumes "part_file a i = part_file a j"
  shows "i = j"
proof -
  from assms have
    "path_join (output_dir a) ((output_prefix a @ ascii ''_'') @ str_nat i @ ext a) =
     path_join (output_dir a) ((output_prefix a @ ascii ''_'') @ str_nat j @ ext a)"
    by (simp add: part_file_def)
  then have "str_nat i @ ext a = str_nat j @ ext a"
    by (rule path_join_inj) (simp add: ascii_def)
  then show ?thesis by (auto dest: str_nat_inj)
qed

lemma flush_if_on_disk:
  assumes "flush_if c A a s = Inr s'" and "on_disk A a s" and "inj A"
  shows "on_disk A a s'"
  using assms(1)
proof (cases rule: flush_if_cases)
  case kept
  with assms(2) show ?thesis by simp
next
  case (wrote content)
  have old: "part_path p \<noteq> A (out_name a s)" if "p \<in> set (parts s)" for p
  proof
    assume eq: "part_path p = A (out_name a s)"
    from that assms(2) obtain i where i: "i < part_index s" "part_path p = A (part_file a i)"
      by (auto simp: on_disk_def)
    with eq assms(3) have "part_file a i = part_file a (part_index s)"
      by (auto dest: injD simp: out_name_part_file)
    then have "i = part_index s" by (rule part_file_inj)
    with i(1) show False by simp
  qed
  have new: "\<exists>i<part_index s + 1. A (out_name a s) = A (part_file a i)"
    by (auto simp: out_name_part_file)
  have older: "\<exists>i<part_index s + 1. part_path p = A (part_file a i)"
    if "p \<in> set (parts s)" for p
    using that assms(2) by (auto simp: on_disk_def intro: less_SucI)
  show ?thesis
    unfolding on_disk_def wrote(4) using assms(2) old new older
    by (auto simp: on_disk_def)
qed

lemma step_on_disk:
  assumes "step L A a obj s = Inr s'" and "on_disk A a s" and "inj A"
  shows "on_disk A a s'"
  using assms(1)
proof (cases rule: step_cases)
  case (1 c n s1 s2 s3)
  from 1(2) assms(2,3) have "on_disk A a s1" by (rule flush_if_on_disk)
  with 1(3) have "on_disk A a s2" using assms(3) by (rule flush_if_on_disk)
  with 1(4) have "on_disk A a s3" using assms(3) by (rule flush_if_on_disk)
  then show ?thesis unfolding 1(5) by (simp add: on_disk_def)
qed

lemma partition_run_on_disk:
  assumes "partition_run L A a objs w = Inr s" and "inj A"
  shows "\<forall>p\<in>set (parts s). files (env s) (part_path p) = Some (part_text p)"
proof -
  from assms(1) obtain s0 where
    loop: "run_loop L A a objs (init_state w) = Inr s0" and
    fl: "flush_if (current_objects s0 \<noteq> [] \<or> current_md_blocks s0 \<noteq> []) A a s0 = Inr s"
    by (auto simp: partition_run_def split: sum.splits)
  have "on_disk A a (init_state w)" by (simp add: on_disk_def init_state_def)
  with loop have "on_disk A a s0"
    by (rule run_loop_induct) (rule step_on_disk [OF _ _ assms(2)])
  with fl have "on_disk A a s" using assms(2) by (rule flush_if_on_disk)
  then show ?thesis by (simp add: on_disk_def)
qed

lemma flush_if_buffers_empty:
  assumes "flush_if (current_objects s \<noteq> [] \<or> current_md_blocks s \<noteq> []) A a s = Inr s'"
    and "wf_state a s"
  shows "current_objects s' = [] \<and> current_md_blocks s' = []"
  using assms(1)
proof (cases rule: flush_if_cases)
  case kept
  with assms(2) show ?thesis by (cases "is_md a") (auto simp: wf_state_def n_current_def)
next
  case (wrote content)
  then show ?thesis by simp
qed

lemma run_loop_dirs: "run_loop L A a objs s = Inr s' \<Longrightarrow> dirs (env s') = dirs (env s)"
proof (erule run_loop_induct [where P = "\<lambda>x. dirs (env x) = dirs (env s)"])
  show "dirs (env s) = dirs (env s)" ..
next
  fix obj s0 s1
  assume "dirs (env s0) = dirs (env s)" "step L A a obj s0 = Inr s1"
  then show "dirs (env s1) = dirs (env s)"
    by (auto elim!: step_cases dest!: flush_if_dirs)
qed

lemma partition_run_Inr:
  assumes "partition_run L A a objs w = Inr s"
  shows "wf_state a s"
    and "current_objects s = []" and "current_md_blocks s = []"
    and "total_read s = length objs"
    and "is_md a \<Longrightarrow> map Inr (concat (map part_blocks (parts s))) = map (obj_to_md L) objs"
    and "\<not> is_md a \<Longrightarrow> concat (map part_objects (parts s)) = objs"
    and "dirs (env s) = dirs w"
proof -
  from assms obtain s0 where
    loop: "run_loop L A a objs (init_state w) = Inr s0" and
    fl: "flush_if (current_objects s0 \<noteq> [] \<or> current_md_blocks s0 \<noteq> []) A a s0 = Inr s"
    by (auto simp: partition_run_def split: sum.splits)
  from loop have wf0: "wf_state a s0" using wf_init by (rule run_loop_wf)
  with fl show "wf_state a s" by (rule flush_if_wf)
  from fl wf0 show e: "current_objects s = []" "current_md_blocks s = []"
    using flush_if_buffers_empty by blast+
  show "total_read s = length objs"
    using run_loop_total_read [OF loop] flush_if_total_read [OF fl] by (simp add: init_state_def)
  show "dirs (env s) = dirs w"
    using run_loop_dirs [OF loop] flush_if_dirs [OF fl] by (simp add: init_state_def)
  { assume md: "is_md a"
    have "map Inr (all_blocks s) = map (obj_to_md L) objs"
      using run_loop_all_blocks [OF md loop] flush_if_all_blocks [OF fl]
      by (simp add: all_blocks_def init_state_def)
    with e show "map Inr (concat (map part_blocks (parts s))) = map (obj_to_md L) objs"
      by (simp add: all_blocks_def) }
  { assume js: "\<not> is_md a"
    have "all_objects s = objs"
      using run_loop_all_objects [OF loop] flush_if_all_objects [OF fl] js
      by (simp add: all_objects_def init_state_def)
    with e show "concat (map part_objects (parts s)) = objs"
      by (simp add: all_objects_def) }
qed

lemma split_json_Inr:
  assumes "split_json L A a objs w = (Inr cat, w')"
  obtains s where
    "max_file_size_mb a \<noteq> None \<or> max_objects_per_file a \<noteq> None"
    "partition_run L A a objs (w\<lparr>dirs := insert (output_dir a) (dirs w)\<rparr>) = Inr s"
    "finalize a s = (Inr cat, w')"
  using assms unfolding split_json_def Let_def
  by (auto split: if_splits sum.splits prod.splits)

lemma finalize_Inr: "finalize a s = (Inr cat, w') \<Longrightarrow> cat = created_files s"
  by (auto simp: finalize_def Let_def split: if_splits option.splits)



lemma first_file_rewritten:
  assumes "split_json L A a objs w = (Inr cat, w')" and "is_md a" and "cat \<noteq> []" and "inj A"
  shows "\<exists>s. partition_run L A a objs (w\<lparr>dirs := insert (output_dir a) (dirs w)\<rparr>) = Inr s \<and>
             files w' (hd cat) = Some (rewrite_first (length objs) (part_text (hd (parts s))))"
  using assms(1)
proof (cases rule: split_json_Inr)
  case (1 s)
  note r = partition_run_Inr [OF 1(2)]
  from 1(3) have cat: "cat = created_files s" by (rule finalize_Inr)
  with r(1) have cp: "cat = map part_path (parts s)" by (simp add: wf_state_def)
  with assms(3) have ne: "parts s \<noteq> []" by auto
  then have "hd (parts s) \<in> set (parts s)" by simp
  with partition_run_on_disk [OF 1(2) assms(4)]
  have "files (env s) (part_path (hd (parts s))) = Some (part_text (hd (parts s)))" by blast
  moreover have "hd (created_files s) = part_path (hd (parts s))"
    using r(1) ne by (simp add: wf_state_def hd_map)
  ultimately have "files w' (hd cat) =
      Some (rewrite_first (total_read s) (part_text (hd (parts s))))"
    using 1(3) assms(2,3) cat by (auto simp: finalize_def Let_def)
  with 1(2) r(4) show ?thesis by auto
qed

text \<open>
  A run returns exactly when a limit is given and every record renders to a text that can
  be encoded.
\<close>

lemma partition_run_returns:
  assumes "\<forall>obj\<in>set objs. renders_ok L a obj"
  shows "\<exists>s. partition_run L A a objs w = Inr s"
proof -
  from assms wf_init obtain s0 where loop: "run_loop L A a objs (init_state w) = Inr s0"
    using run_loop_ok by blast
  then have "wf_state a s0" using wf_init by (rule run_loop_wf)
  then obtain s where
    "flush_if (current_objects s0 \<noteq> [] \<or> current_md_blocks s0 \<noteq> []) A a s0 = Inr s"
    using flush_if_ok by blast
  with loop show ?thesis by (simp add: partition_run_def)
qed

lemma finalize_returns: "wf_state a s \<Longrightarrow> \<exists>cat w'. finalize a s = (Inr cat, w')"
  by (cases "created_files s") (auto simp: finalize_def Let_def wf_state_def split: option.splits)

lemma split_json_returns:
  "(\<exists>cat w'. split_json L A a objs w = (Inr cat, w')) \<longleftrightarrow>
     (max_file_size_mb a \<noteq> None \<or> max_objects_per_file a \<noteq> None) \<and>
     (\<forall>obj\<in>set objs. renders_ok L a obj)"
proof
  assume "\<exists>cat w'. split_json L A a objs w = (Inr cat, w')"
  then obtain cat w' where "split_json L A a objs w = (Inr cat, w')" by blast
  then show "(max_file_size_mb a \<noteq> None \<or> max_objects_per_file a \<noteq> None) \<and>
     (\<forall>obj\<in>set objs. renders_ok L a obj)"
  proof (cases rule: split_json_Inr)
    case (1 s)
    from 1(2) have "\<forall>obj\<in>set objs. renders_ok L a obj"
      by (auto simp: partition_run_def split: sum.splits dest: run_loop_renders)
    with 1(1) show ?thesis by simp
  qed
next
  assume r: "(max_file_size_mb a \<noteq> None \<or> max_objects_per_file a \<noteq> None) \<and>
     (\<forall>obj\<in>set objs. renders_ok L a obj)"
  then obtain s where
    s: "partition_run L A a objs (w\<lparr>dirs := insert (output_dir a) (dirs w)\<rparr>) = Inr s"
    using partition_run_returns by blast
  then have "wf_state a s" by (rule partition_run_Inr)
  then obtain cat w' where "finalize a s = (Inr cat, w')" using finalize_returns by blast
  with r s show "\<exists>cat w'. split_json L A a objs w = (Inr cat, w')"
    by (auto simp: split_json_def Let_def)
qed















lemma n_current_append [simp]: "n_current a (append_unit a obj c n s) = n_current a s + 1"
  by (simp add: n_current_def append_unit_def)








lemma flush_if_False [simp]: "flush_if False A a s = Inr s"
  by (simp add: flush_if_def)

lemma no_size_limit [simp]:
  "max_file_size_mb a = None \<Longrightarrow> \<not> size_reached a s"
  "max_file_size_mb a = None \<Longrightarrow> \<not> would_exceed a s n"
  by (simp_all add: size_reached_def would_exceed_def max_size_bytes_def)









lemmas eval_engine =
  split_json_def partition_run_def init_state_def step_def measure_obj_def flush_if_def
  write_part_def append_unit_def size_reached_def would_exceed_def count_reached_def
  n_current_def part_content_def out_name_def path_join_def ext_def is_md_def max_size_bytes_def
  finalize_def rewrite_first_def report_line_def report_prefix_def md_sep_def sep_len_def
  encode_len_def utf8_size_def utf8_bytes_def is_surrogate_def py_trunc_def
  str_nat.simps fmt_commas.simps

lemma five_by_two_run:
  "split_json lib0 id md_by_two five_msgs world0 =
     (Inr [ascii ''dist/part_1.md'', ascii ''dist/part_2.md'', ascii ''dist/part_3.md''],
      snd (split_json lib0 id md_by_two five_msgs world0))"
proof -
  have "fst (split_json lib0 id md_by_two five_msgs world0) =
          Inr [ascii ''dist/part_1.md'', ascii ''dist/part_2.md'', ascii ''dist/part_3.md'']"
    by (simp add: eval_engine eval_text world0_def md_by_two_def five_msgs_def msg_def)
  then show ?thesis by (simp add: prod_eq_iff)
qed




section \<open>Limits of zero, repeated runs and the size limit: proofs\<close>

text \<open>The limits enter a run through the three tests only.\<close>

lemma limit_free [simp]:
  "is_md (a\<lparr>max_file_size_mb := m\<rparr>) = is_md a"
  "is_md (a\<lparr>max_objects_per_file := k\<rparr>) = is_md a"
  "n_current (a\<lparr>max_file_size_mb := m\<rparr>) s = n_current a s"
  "n_current (a\<lparr>max_objects_per_file := k\<rparr>) s = n_current a s"
  "part_content (a\<lparr>max_file_size_mb := m\<rparr>) s = part_content a s"
  "part_content (a\<lparr>max_objects_per_file := k\<rparr>) s = part_content a s"
  "out_name (a\<lparr>max_file_size_mb := m\<rparr>) s = out_name a s"
  "out_name (a\<lparr>max_objects_per_file := k\<rparr>) s = out_name a s"
  by (simp_all add: is_md_def n_current_def part_content_def out_name_def ext_def)

lemma limit_free_write [simp]:
  "write_part A (a\<lparr>max_file_size_mb := m\<rparr>) s = write_part A a s"
  "write_part A (a\<lparr>max_objects_per_file := k\<rparr>) s = write_part A a s"
  "measure_obj L (a\<lparr>max_file_size_mb := m\<rparr>) obj s = measure_obj L a obj s"
  "measure_obj L (a\<lparr>max_objects_per_file := k\<rparr>) obj s = measure_obj L a obj s"
  "append_unit (a\<lparr>max_file_size_mb := m\<rparr>) obj c n s = append_unit a obj c n s"
  "append_unit (a\<lparr>max_objects_per_file := k\<rparr>) obj c n s = append_unit a obj c n s"
  by (simp_all add: write_part_def measure_obj_def append_unit_def split: sum.splits)

lemma limit_free_flush [simp]:
  "flush_if c A (a\<lparr>max_file_size_mb := m\<rparr>) s = flush_if c A a s"
  "flush_if c A (a\<lparr>max_objects_per_file := k\<rparr>) s = flush_if c A a s"
  by (simp_all add: flush_if_def)





lemma count_reached_None [simp]: "max_objects_per_file a = None \<Longrightarrow> \<not> count_reached a s"
  by (simp add: count_reached_def)







lemma rel_sum_cases2:
  assumes "rel_sum R S x y"
  obtains (err) e e' where "x = Inl e" "y = Inl e'" "R e e'"
  | (ok) s t where "x = Inr s" "y = Inr t" "S s t"
  using assms by (cases x; cases y) auto

lemma same_output_tests:
  assumes "same_output s t"
  shows "n_current a s = n_current a t" "part_content a s = part_content a t"
    "out_name a s = out_name a t" "measure_obj L a obj s = measure_obj L a obj t"
    "size_reached a s = size_reached a t" "would_exceed a s n = would_exceed a t n"
    "count_reached a s = count_reached a t"
  using assms
  by (simp_all add: same_output_def n_current_def part_content_def out_name_def measure_obj_def
        size_reached_def would_exceed_def count_reached_def split: option.splits)

lemma write_part_same_output:
  assumes "same_output s t"
  shows "rel_sum (=) same_output (write_part A a s) (write_part A a t)"
proof (cases "n_current a s = 0")
  case True
  with assms show ?thesis
    using same_output_tests(1) [OF assms, of a] by (simp add: write_part_def)
next
  case False
  show ?thesis
  proof (cases "part_content a s")
    case (Inl e)
    with False show ?thesis
      using same_output_tests(1,2) [OF assms, of a] by (simp add: write_part_def)
  next
    case (Inr content)
    with False assms show ?thesis
      using same_output_tests(1,2,3) [OF assms, of a]
      by (auto simp: write_part_def same_output_def)
  qed
qed

lemma flush_if_same_output:
  "same_output s t \<Longrightarrow> rel_sum (=) same_output (flush_if c A a s) (flush_if c A a t)"
  by (simp add: flush_if_def write_part_same_output)

lemma append_unit_same_output:
  "same_output s t \<Longrightarrow> same_output (append_unit a obj c n s) (append_unit a obj c n t)"
  by (simp add: same_output_def append_unit_def)

lemma step_same_output:
  assumes "same_output s t"
  shows "rel_sum (=) same_output (step L A a obj s) (step L A a obj t)"
proof (cases "measure_obj L a obj s")
  case (Inl e)
  then show ?thesis using same_output_tests(4) [OF assms, of L a obj] by (simp add: step_def)
next
  case (Inr cn)
  obtain c n where cn: "cn = (c, n)" by (cases cn)
  have m: "measure_obj L a obj t = Inr (c, n)"
    using Inr cn same_output_tests(4) [OF assms, of L a obj] by simp
  have r1: "rel_sum (=) same_output (flush_if (size_reached a s) A a s) (flush_if (size_reached a t) A a t)"
    using flush_if_same_output [OF assms] same_output_tests(5) [OF assms, of a] by simp
  show ?thesis
  proof (cases "flush_if (size_reached a s) A a s")
    case Inl
    with r1 Inr cn m show ?thesis by (auto simp: step_def elim: rel_sum_cases2)
  next
    case s1: (Inr s1)
    with r1 obtain t1 where t1: "flush_if (size_reached a t) A a t = Inr t1" "same_output s1 t1"
      by (auto elim: rel_sum_cases2)
    have r2: "rel_sum (=) same_output (flush_if (would_exceed a s1 n) A a s1)
                (flush_if (would_exceed a t1 n) A a t1)"
      using flush_if_same_output [OF t1(2)] same_output_tests(6) [OF t1(2), of a n] by simp
    show ?thesis
    proof (cases "flush_if (would_exceed a s1 n) A a s1")
      case Inl
      with r2 Inr cn m s1 t1 show ?thesis by (auto simp: step_def elim: rel_sum_cases2)
    next
      case s2: (Inr s2)
      with r2 obtain t2 where t2: "flush_if (would_exceed a t1 n) A a t1 = Inr t2" "same_output s2 t2"
        by (auto elim: rel_sum_cases2)
      have r3: "rel_sum (=) same_output (flush_if (count_reached a s2) A a s2)
                  (flush_if (count_reached a t2) A a t2)"
        using flush_if_same_output [OF t2(2)] same_output_tests(7) [OF t2(2), of a] by simp
      show ?thesis
      proof (cases "flush_if (count_reached a s2) A a s2")
        case Inl
        with r3 Inr cn m s1 t1 s2 t2 show ?thesis by (auto simp: step_def elim: rel_sum_cases2)
      next
        case s3: (Inr s3)
        with r3 obtain t3 where t3: "flush_if (count_reached a t2) A a t2 = Inr t3" "same_output s3 t3"
          by (auto elim: rel_sum_cases2)
        with Inr cn m s1 t1 s2 t2 s3 show ?thesis
          by (simp add: step_def append_unit_same_output)
      qed
    qed
  qed
qed

lemma run_loop_same_output:
  "same_output s t \<Longrightarrow>
     rel_sum (\<lambda>ew ew'. fst ew = fst ew') same_output (run_loop L A a objs s) (run_loop L A a objs t)"
proof (induction objs arbitrary: s t)
  case Nil
  then show ?case by simp
next
  case (Cons obj objs)
  from step_same_output [OF Cons.prems, of L A a obj] show ?case
  proof (cases rule: rel_sum_cases2)
    case (err e e')
    then show ?thesis by simp
  next
    case (ok s1 t1)
    with Cons.IH [of s1 t1] show ?thesis by simp
  qed
qed

lemma partition_run_same_output:
  "rel_sum (\<lambda>ew ew'. fst ew = fst ew') same_output
     (partition_run L A a objs w1) (partition_run L A a objs w2)"
proof -
  have "same_output (init_state w1) (init_state w2)"
    by (simp add: same_output_def init_state_def)
  from run_loop_same_output [OF this, of L A a objs] show ?thesis
  proof (cases rule: rel_sum_cases2)
    case (err e e')
    then show ?thesis by (simp add: partition_run_def)
  next
    case (ok s t)
    then have "rel_sum (=) same_output
        (flush_if (current_objects s \<noteq> [] \<or> current_md_blocks s \<noteq> []) A a s)
        (flush_if (current_objects t \<noteq> [] \<or> current_md_blocks t \<noteq> []) A a t)"
      using flush_if_same_output [of s t] by (simp add: same_output_def)
    with ok show ?thesis
      by (auto simp: partition_run_def elim!: rel_sum_cases2)
  qed
qed

lemma finalize_same_output:
  assumes "same_output s t"
  shows "fst (finalize a s) = fst (finalize a t)"
    and "\<forall>p\<in>set (created_files s). files (snd (finalize a s)) p = files (snd (finalize a t)) p"
proof -
  have c: "created_files s = created_files t" using assms by (simp add: same_output_def)
  have f: "\<And>p. p \<in> set (created_files s) \<Longrightarrow> files (env s) p = files (env t) p"
    using assms by (simp add: same_output_def)
  have n: "total_read s = total_read t" using assms by (simp add: same_output_def)
  show "fst (finalize a s) = fst (finalize a t)"
  proof (cases "is_md a \<and> created_files s \<noteq> []")
    case True
    then have "files (env s) (hd (created_files s)) = files (env t) (hd (created_files s))"
      by (intro f) simp
    with True c show ?thesis by (simp add: finalize_def Let_def split: option.splits)
  next
    case False
    with c show ?thesis by (auto simp: finalize_def)
  qed
  show "\<forall>p\<in>set (created_files s). files (snd (finalize a s)) p = files (snd (finalize a t)) p"
  proof (cases "is_md a \<and> created_files s \<noteq> []")
    case True
    then have "files (env s) (hd (created_files s)) = files (env t) (hd (created_files s))"
      by (intro f) simp
    with True c n f show ?thesis by (auto simp: finalize_def Let_def split: option.splits)
  next
    case False
    with c f show ?thesis by (auto simp: finalize_def)
  qed
qed

text \<open>
  Claim C8. The model is a function, so equal arguments give equal results; what a
  second run can differ in is the file system it starts from, which then holds the
  output of the first. For any two starting file systems the runs return the same
  catalog, or fail with the same error, and the files of the catalog have the same
  contents.
\<close>

theorem rerun_same_output:
  "fst (split_json L A a objs w1) = fst (split_json L A a objs w2) \<and>
   (\<forall>cat. fst (split_json L A a objs w1) = Inr cat \<longrightarrow>
      (\<forall>p\<in>set cat. files (snd (split_json L A a objs w1)) p =
                     files (snd (split_json L A a objs w2)) p))"
proof (cases "max_file_size_mb a = None \<and> max_objects_per_file a = None")
  case True
  then show ?thesis by (simp add: split_json_def)
next
  case False
  let ?w1 = "w1\<lparr>dirs := insert (output_dir a) (dirs w1)\<rparr>"
  let ?w2 = "w2\<lparr>dirs := insert (output_dir a) (dirs w2)\<rparr>"
  from partition_run_same_output [of L A a objs ?w1 ?w2] show ?thesis
  proof (cases rule: rel_sum_cases2)
    case (err ew ew')
    with False show ?thesis by (auto simp: split_json_def Let_def split: prod.splits)
  next
    case (ok s t)
    have sj: "split_json L A a objs w1 = finalize a s" "split_json L A a objs w2 = finalize a t"
      using ok False by (auto simp: split_json_def Let_def)
    have "\<forall>p\<in>set cat. files (snd (finalize a s)) p = files (snd (finalize a t)) p"
      if "fst (finalize a s) = Inr cat" for cat
    proof -
      from that have "cat = created_files s" by (auto intro: finalize_Inr simp: prod_eq_iff)
      with finalize_same_output(2) [OF ok(3), of a] show ?thesis by simp
    qed
    with finalize_same_output(1) [OF ok(3), of a] show ?thesis by (simp add: sj)
  qed
qed

lemma utf8_size_append [simp]: "utf8_size (x @ y) = utf8_size x + utf8_size y"
  by (simp add: utf8_size_def)

lemma utf8_size_Nil [simp]: "utf8_size [] = 0"
  by (simp add: utf8_size_def)

lemma utf8_size_nonneg: "0 \<le> utf8_size x"
  by (simp add: utf8_size_def)

lemma join_snoc: "xs \<noteq> [] \<Longrightarrow> join sep (xs @ [c]) = join sep xs @ sep @ c"
  by (induction sep xs rule: join.induct) auto

lemma sep_len_nonneg: "0 \<le> sep_len"
  by (simp add: sep_len_def utf8_size_nonneg)

lemma flush_if_md_size_ok:
  assumes "flush_if c A a s = Inr s'" and "md_size_ok b s" and "is_md a"
  shows "md_size_ok b s'"
  using assms(1)
proof (cases rule: flush_if_cases)
  case kept
  with assms(2) show ?thesis by simp
next
  case (wrote content)
  from wrote(3) assms(3) have content: "content = join md_sep (current_md_blocks s)"
    by (simp add: part_content_md)
  from wrote(2) assms(3) have ne: "current_md_blocks s \<noteq> []" by (auto simp: n_current_def)
  have "utf8_size content \<le> b \<or> (\<exists>u. current_md_blocks s = [u] \<and> b < utf8_size u)"
  proof (cases "2 \<le> length (current_md_blocks s)")
    case True
    with assms(2) show ?thesis by (auto simp: md_size_ok_def content)
  next
    case False
    with ne obtain u where "current_md_blocks s = [u]"
      by (cases "current_md_blocks s"; cases "tl (current_md_blocks s)") auto
    then show ?thesis by (auto simp: content)
  qed
  with wrote(4) assms(2) show ?thesis by (auto simp: md_size_ok_def)
qed

lemma flush_if_buffer_kept:
  assumes "flush_if c A a s = Inr s'" and "current_md_blocks s' \<noteq> []"
  shows "s' = s" and "\<not> c \<or> n_current a s = 0"
  using assms by (auto elim!: flush_if_cases)

lemma step_md_size_ok:
  assumes "step L A a obj s = Inr s'" and "md_size_ok b s" and "is_md a"
    and "max_size_bytes a = Some b" and "b \<noteq> 0"
  shows "md_size_ok b s'"
  using assms(1)
proof (cases rule: step_cases)
  case (1 c n s1 s2 s3)
  from 1(2) assms(2,3) have ok1: "md_size_ok b s1" by (rule flush_if_md_size_ok)
  from 1(3) ok1 assms(3) have ok2: "md_size_ok b s2" by (rule flush_if_md_size_ok)
  from 1(4) ok2 assms(3) have ok3: "md_size_ok b s3" by (rule flush_if_md_size_ok)
  from 1(1) assms(3) have n: "n = utf8_size c + (if current_md_blocks s \<noteq> [] then sep_len else 0)"
    by (auto simp: measure_obj_def encode_len_def map_sum_id_Inr split: sum.splits if_splits)
  show ?thesis
  proof (cases "current_md_blocks s3 = []")
    case True
    with ok3 n assms(3) show ?thesis
      unfolding 1(5) using sep_len_nonneg
      by (auto simp: md_size_ok_def append_unit_def)
  next
    case False
    from flush_if_buffer_kept [OF 1(4) False] have s3: "s3 = s2" "\<not> count_reached a s2 \<or> n_current a s2 = 0"
      by auto
    with False have ne2: "current_md_blocks s2 \<noteq> []" by simp
    from flush_if_buffer_kept [OF 1(3) ne2] have s2: "s2 = s1" "\<not> would_exceed a s1 n \<or> n_current a s1 = 0"
      by auto
    with ne2 have ne1: "current_md_blocks s1 \<noteq> []" by simp
    from flush_if_buffer_kept [OF 1(2) ne1] have s1: "s1 = s" by auto
    from ne1 s1 have ne: "current_md_blocks s \<noteq> []" by simp
    with assms(3) have "n_current a s \<noteq> 0" by (simp add: n_current_def)
    with s2(2) s1 assms(4,5) have fit: "current_size s + n \<le> b"
      by (auto simp: would_exceed_def)
    from ne n have n': "n = utf8_size c + sep_len" by simp
    have "s' = append_unit a obj c n s" using 1(5) s3 s2 s1 by simp
    with assms(2,3) ne fit n' show ?thesis
      by (auto simp: md_size_ok_def append_unit_def join_snoc sep_len_def)
  qed
qed

lemma md_parts_within_limit:
  assumes "partition_run L A a objs w = Inr s" and "is_md a"
    and "max_size_bytes a = Some b" and "b \<noteq> 0"
  shows "\<forall>p\<in>set (parts s).
           utf8_size (part_text p) \<le> b \<or> (\<exists>u. part_blocks p = [u] \<and> b < utf8_size u)"
proof -
  from assms(1) obtain s0 where
    loop: "run_loop L A a objs (init_state w) = Inr s0" and
    fl: "flush_if (current_objects s0 \<noteq> [] \<or> current_md_blocks s0 \<noteq> []) A a s0 = Inr s"
    by (auto simp: partition_run_def split: sum.splits)
  have "md_size_ok b (init_state w)" by (simp add: md_size_ok_def init_state_def)
  with loop have "md_size_ok b s0"
    by (rule run_loop_induct) (rule step_md_size_ok [OF _ _ assms(2,3,4)])
  with fl have "md_size_ok b s" using assms(2) by (rule flush_if_md_size_ok)
  then show ?thesis by (simp add: md_size_ok_def)
qed



text \<open>
  The run over the five messages, repeated on the file system the first run left.
\<close>

theorem rerun_same_output_witness:
  "fst (split_json lib0 id md_by_two five_msgs (snd (split_json lib0 id md_by_two five_msgs world0))) =
     Inr [ascii ''dist/part_1.md'', ascii ''dist/part_2.md'', ascii ''dist/part_3.md''] \<and>
   map (files (snd (split_json lib0 id md_by_two five_msgs
                      (snd (split_json lib0 id md_by_two five_msgs world0)))))
     [ascii ''dist/part_1.md'', ascii ''dist/part_2.md'', ascii ''dist/part_3.md''] =
   map (files (snd (split_json lib0 id md_by_two five_msgs world0)))
     [ascii ''dist/part_1.md'', ascii ''dist/part_2.md'', ascii ''dist/part_3.md'']"
proof -
  have "fst (split_json lib0 id md_by_two five_msgs world0) =
          Inr [ascii ''dist/part_1.md'', ascii ''dist/part_2.md'', ascii ''dist/part_3.md'']"
    using five_by_two_run by (simp add: prod_eq_iff)
  with rerun_same_output [of lib0 id md_by_two five_msgs world0
      "snd (split_json lib0 id md_by_two five_msgs world0)"]
  show ?thesis by simp
qed

text \<open>
  Claim C1 at a failing input, in JSON mode. The limit is 14 bytes and each of the two
  records serialises to 7 bytes, so the accumulated size never exceeds the limit and both
  go into one part; the file written holds the array with its brackets and comma and is
  17 bytes long. In Markdown mode the separators are counted and the bound holds
  (\<open>md_parts_within_limit\<close>).
\<close>

theorem json_part_over_limit:
  "max_size_bytes json_14_bytes = Some 14 \<and>
   fst (split_json lib0 id json_14_bytes [obj_a1, obj_a1] world0) = Inr [ascii ''dist/part_1.json''] \<and>
   files (snd (split_json lib0 id json_14_bytes [obj_a1, obj_a1] world0)) (ascii ''dist/part_1.json'') =
     Some (ascii ''[{'' @ [34] @ ascii ''a'' @ [34] @ ascii '':1},{'' @ [34] @ ascii ''a'' @ [34] @ ascii '':1}]'') \<and>
   utf8_size (ascii ''[{'' @ [34] @ ascii ''a'' @ [34] @ ascii '':1},{'' @ [34] @ ascii ''a'' @ [34] @ ascii '':1}]'') = 17 \<and>
   map_sum id utf8_size (json_dumps obj_a1) = Inr 7"
  by (simp add: eval_engine world0_def json_14_bytes_def obj_a1_def ascii_def Let_def
        json_str_def esc_char_def str_int_def)

end
